theory Spec2Isabelle
  imports Main "HOL-Library.Word"
begin

unbundle bit_operations_syntax

section \<open>Bin2C: the conversion of a binary file to a C array declaration\<close>

text \<open>
  The development follows the second \<^verbatim>\<open>main\<close> of \<^verbatim>\<open>bin2c.c\<close> (the version with
  \<^verbatim>\<open>fatal\<close>, \<^verbatim>\<open>--define\<close>, \<^verbatim>\<open>--mutable\<close> and the label template), built without
  \<^verbatim>\<open>USE_BZ2\<close>. C objects are modelled as follows:
  \<^item> \<^verbatim>\<open>uint8_t\<close> is \<open>8 word\<close>, \<^verbatim>\<open>uint32_t\<close> and \<^verbatim>\<open>unsigned int\<close> are \<open>32 word\<close>, so
    that every addition wraps at \<open>2 ^ 32\<close> as it does in the program;
  \<^item> a C string is the \<open>string\<close> of its characters before the terminating NUL; where
    the program writes into the bytes of a string (the symbol name), the buffer with
    its terminator is modelled explicitly;
  \<^item> \<^verbatim>\<open>exit(1)\<close> and \<^verbatim>\<open>return 1\<close> are error values; \<^verbatim>\<open>malloc\<close> and \<^verbatim>\<open>calloc\<close> are
    taken to succeed.
\<close>

type_synonym byte = "8 word"
type_synonym uint = "32 word"

subsection \<open>Formatted output\<close>

text \<open>The conversions \<^verbatim>\<open>%x\<close> and \<^verbatim>\<open>%u\<close> of \<^verbatim>\<open>printf\<close>: the digits of the value, most
  significant first, at least one digit.\<close>

definition hex_digit :: "nat \<Rightarrow> char" where
  "hex_digit d = ''0123456789abcdef'' ! d"

fun hex_of_nat :: "nat \<Rightarrow> string" where
  "hex_of_nat n = (if n < 16 then [hex_digit n] else hex_of_nat (n div 16) @ [hex_digit (n mod 16)])"

fun dec_of_nat :: "nat \<Rightarrow> string" where
  "dec_of_nat n = (if n < 10 then [hex_digit n] else dec_of_nat (n div 10) @ [hex_digit (n mod 10)])"

declare hex_of_nat.simps [simp del] dec_of_nat.simps [simp del]

text \<open>\<^verbatim>\<open>"0x%0Nx"\<close>: the hexadecimal digits, padded on the left with zeros to at least
  \<open>N\<close> digits, after the prefix \<^verbatim>\<open>0x\<close>.\<close>

definition printf_0x :: "nat \<Rightarrow> uint \<Rightarrow> string" where
  "printf_0x N w =
     (let s = hex_of_nat (unat w) in ''0x'' @ replicate (N - length s) CHR ''0'' @ s)"

text \<open>\<^verbatim>\<open>"%u"\<close> of an \<^verbatim>\<open>unsigned int\<close>.\<close>

definition printf_u :: "uint \<Rightarrow> string" where
  "printf_u w = dec_of_nat (unat w)"

subsection \<open>The element count\<close>

text \<open>\<^verbatim>\<open>array_size = (file_size + ((bitsize >> 3) - 1)) / (bitsize >> 3)\<close>, in
  \<^verbatim>\<open>unsigned int\<close> arithmetic.\<close>

definition array_size :: "uint \<Rightarrow> uint \<Rightarrow> uint" where
  "array_size bitsize file_size =
     (file_size + (drop_bit 3 bitsize - 1)) div drop_bit 3 bitsize"

subsection \<open>The packing loop\<close>

text \<open>The calls of \<^verbatim>\<open>fprintf\<close> that write the body of the array, in the order the
  program makes them: \<open>Sep\<close> is \<^verbatim>\<open>fprintf(f_output, ", ")\<close>, \<open>Brk\<close> is
  \<^verbatim>\<open>fprintf(f_output, "\n\t")\<close> and \<open>Val N w\<close> is \<^verbatim>\<open>fprintf(f_output, "0x%0Nx", w)\<close>.\<close>

datatype fcall = Sep | Brk | Val nat uint

fun render :: "fcall \<Rightarrow> string" where
  "render Sep = '', ''"
| "render Brk = [CHR 0x0A, CHR 0x09]"
| "render (Val N w) = printf_0x N w"

text \<open>The block that prints one word; the program has it twice, in the loop and after
  it for the last, partial word.\<close>

definition print_word :: "uint \<Rightarrow> bool \<Rightarrow> bool \<Rightarrow> uint \<Rightarrow> fcall list" where
  "print_word bitsize need_comma need_newline w =
     (if need_comma then [Sep] else []) @
     (if need_newline then [Brk] else []) @
     (if bitsize = 8 then [Val 2 w]
      else if bitsize = 16 then [Val 4 w]
      else if bitsize = 32 then [Val 8 w]
      else [])"

text \<open>The variables of the loop. \<open>bits\<close> is an \<^verbatim>\<open>int\<close> in the program; it only takes
  the values 0, 8, 16 and 24 between iterations and is compared with \<open>bitsize\<close> after the
  conversion to \<^verbatim>\<open>unsigned int\<close>.\<close>

record loop_state =
  word :: uint
  bits :: nat
  need_comma :: bool
  need_newline :: bool
  idx :: uint
  printed :: "fcall list"

definition loop_init :: loop_state where
  "loop_init = \<lparr>word = 0, bits = 0, need_comma = False, need_newline = True, idx = 0,
                 printed = []\<rparr>"

text \<open>One iteration of \<^verbatim>\<open>for (idx = 0; idx < file_size; ++idx)\<close> on the byte
  \<^verbatim>\<open>buf[idx]\<close>.\<close>

definition loop_body :: "uint \<Rightarrow> loop_state \<Rightarrow> byte \<Rightarrow> loop_state" where
  "loop_body bitsize s b =
     (let w = word s OR push_bit (bits s) (ucast b);
          n = bits s + 8
      in if of_nat n = bitsize
         then s\<lparr>word := 0, bits := 0, need_comma := True,
                need_newline := ((idx s + 1) AND 0x0f = 0),
                idx := idx s + 1,
                printed := printed s @ print_word bitsize (need_comma s) (need_newline s) w\<rparr>
         else s\<lparr>word := w, bits := n, idx := idx s + 1\<rparr>)"

fun pack_loop :: "uint \<Rightarrow> loop_state \<Rightarrow> byte list \<Rightarrow> loop_state" where
  "pack_loop bitsize s [] = s"
| "pack_loop bitsize s (b # buf) = pack_loop bitsize (loop_body bitsize s b) buf"

text \<open>The whole body of the array: the loop over the buffer, then the partial word if
  \<^verbatim>\<open>bits > 0\<close>.\<close>

definition array_body :: "uint \<Rightarrow> byte list \<Rightarrow> fcall list" where
  "array_body bitsize buf =
     (let s = pack_loop bitsize loop_init buf
      in printed s @
         (if bits s > 0 then print_word bitsize (need_comma s) (need_newline s) (word s)
          else []))"

text \<open>The words of the array, in the order they are printed.\<close>

fun fcall_words :: "fcall list \<Rightarrow> uint list" where
  "fcall_words [] = []"
| "fcall_words (Val N w # cs) = w # fcall_words cs"
| "fcall_words (c # cs) = fcall_words cs"

definition emitted_words :: "uint \<Rightarrow> byte list \<Rightarrow> uint list" where
  "emitted_words bitsize buf = fcall_words (array_body bitsize buf)"


subsection \<open>Functions of the C library\<close>

text \<open>The character classes of \<^verbatim>\<open><ctype.h>\<close> in the C locale.\<close>

definition isdigit :: "char \<Rightarrow> bool" where
  "isdigit c = (let n = of_char c :: nat in 48 \<le> n \<and> n \<le> 57)"

definition isalpha :: "char \<Rightarrow> bool" where
  "isalpha c = (let n = of_char c :: nat in (65 \<le> n \<and> n \<le> 90) \<or> (97 \<le> n \<and> n \<le> 122))"

definition isalnum :: "char \<Rightarrow> bool" where
  "isalnum c = (isalpha c \<or> isdigit c)"

definition isspace :: "char \<Rightarrow> bool" where
  "isspace c = (let n = of_char c :: nat in n = 32 \<or> (9 \<le> n \<and> n \<le> 13))"

text \<open>\<^verbatim>\<open>strtol\<close> in base 10, as \<^verbatim>\<open>atoi\<close> calls it: white space, an optional sign, then the
  decimal digits up to the first other character; a number outside the range of
  \<^verbatim>\<open>long\<close> gives the nearest end of the range. \<^verbatim>\<open>long\<close> has 64 bits, as on the system the
  input is read on.\<close>

fun atoi_digits :: "int \<Rightarrow> string \<Rightarrow> int" where
  "atoi_digits acc [] = acc"
| "atoi_digits acc (c # cs) =
     (if isdigit c then atoi_digits (acc * 10 + (of_char c - 48)) cs else acc)"

definition strtol :: "string \<Rightarrow> int" where
  "strtol s =
     (case dropWhile isspace s of
        [] \<Rightarrow> 0
      | c # r \<Rightarrow> if c = CHR ''-'' then max (- atoi_digits 0 r) (- (2 ^ 63))
                 else if c = CHR ''+'' then min (atoi_digits 0 r) (2 ^ 63 - 1)
                 else min (atoi_digits 0 (c # r)) (2 ^ 63 - 1))"

text \<open>\<^verbatim>\<open>atoi\<close> is \<^verbatim>\<open>(int) strtol(s, NULL, 10)\<close>: the conversion to the 32 bits of an
  \<^verbatim>\<open>int\<close> keeps the low bits. (C leaves \<^verbatim>\<open>atoi\<close> undefined for a number that does not
  fit an \<^verbatim>\<open>int\<close>; this is what the C library does.)\<close>

definition atoi :: "string \<Rightarrow> int" where
  "atoi s = sint (word_of_int (strtol s) :: 32 word)"

text \<open>\<^verbatim>\<open>strrchr(s, c)\<close> as the index of the last \<open>c\<close> in \<open>s\<close>, \<open>None\<close> for \<^verbatim>\<open>NULL\<close>.\<close>

fun strrchr :: "string \<Rightarrow> char \<Rightarrow> nat option" where
  "strrchr [] c = None"
| "strrchr (x # xs) c =
     (case strrchr xs c of
        Some i \<Rightarrow> Some (Suc i)
      | None \<Rightarrow> if x = c then Some 0 else None)"

text \<open>\<^verbatim>\<open>strpbrk(s, accept)\<close> as the rest of \<open>s\<close> from its first character that is in
  \<open>accept\<close>, \<open>None\<close> for \<^verbatim>\<open>NULL\<close>.\<close>

fun strpbrk :: "string \<Rightarrow> string \<Rightarrow> string option" where
  "strpbrk [] accept = None"
| "strpbrk (x # xs) accept = (if x \<in> set accept then Some (x # xs) else strpbrk xs accept)"

text \<open>\<^verbatim>\<open>strstr(s, "xy") != NULL\<close> for a pattern of two characters.\<close>

fun strstr2 :: "string \<Rightarrow> char \<Rightarrow> char \<Rightarrow> bool" where
  "strstr2 (a # b # cs) x y = ((a = x \<and> b = y) \<or> strstr2 (b # cs) x y)"
| "strstr2 cs x y = False"

subsection \<open>The command line\<close>

text \<open>The ways the program ends with status 1, named after the message it prints on
  \<^verbatim>\<open>stderr\<close>: \<open>Usage\<close> is \<^verbatim>\<open>about(NULL)\<close>, \<open>Invalid_option a\<close> is \<^verbatim>\<open>about(a)\<close>, the others
  are calls of \<^verbatim>\<open>fatal\<close>.\<close>

datatype error =
    Usage
  | Invalid_option string
  | Invalid_bit_size
  | Too_many_filenames
  | No_input_file
  | Failed_to_open_for_reading string
  | Failed_to_open_for_writing string

text \<open>The variables that the argument loop sets.\<close>

record opts =
  f_inputname :: "string option"
  f_outputname :: "string option"
  symbolname :: "string option"
  is_appending :: bool
  is_textfile :: bool
  is_mutable :: bool
  use_macro :: bool
  zero_terminate :: bool
  bitsize :: uint

definition opts_init :: opts where
  "opts_init = \<lparr>f_inputname = None, f_outputname = None, symbolname = None,
     is_appending = False, is_textfile = False, is_mutable = False, use_macro = False,
     zero_terminate = False, bitsize = 8\<rparr>"

text \<open>The value of an option that is \<^verbatim>\<open>-b\<close> or \<^verbatim>\<open>--bits\<close>: the rest of the argument
  from index \<open>j\<close> if it starts with a digit, the next argument (\<^verbatim>\<open>argv[++idx]\<close>) if the
  argument ends at \<open>j\<close> and there is a next one, and otherwise none (\<^verbatim>\<open>about(argv[idx])\<close>).
  The flag tells that the next argument was taken.\<close>

definition bits_value :: "string \<Rightarrow> string list \<Rightarrow> (string \<times> bool) option" where
  "bits_value a rest =
     (let j = (if a ! 1 = CHR ''-'' then 6 else 2) in
      case drop j a of
        c # _ \<Rightarrow> if isdigit c then Some (drop j a, False) else None
      | [] \<Rightarrow> (case rest of v # _ \<Rightarrow> Some (v, True) | [] \<Rightarrow> None))"

text \<open>The value of an option that is \<^verbatim>\<open>-l\<close> or \<^verbatim>\<open>--label\<close>: the rest of the argument
  from index \<open>j\<close> if it is not empty, else the next argument if there is one.\<close>

definition label_value :: "string \<Rightarrow> string list \<Rightarrow> (string \<times> bool) option" where
  "label_value a rest =
     (let j = (if a ! 1 = CHR ''-'' then 7 else 2) in
      if drop j a \<noteq> [] then Some (drop j a, False)
      else case rest of v # _ \<Rightarrow> Some (v, True) | [] \<Rightarrow> None)"

text \<open>The branch of the chain of \<^verbatim>\<open>if\<close> and \<^verbatim>\<open>else if\<close> that an argument takes, with the
  tests in the order of the program. \<open>Unknown\<close> is an argument that starts with \<^verbatim>\<open>'-'\<close>
  and passes none of the tests: the chain has no last \<^verbatim>\<open>else\<close>. \<open>Positional\<close> is an
  argument that does not start with \<^verbatim>\<open>'-'\<close>.\<close>

datatype branch =
  Append | Bits | Define | Help | Label | Mutable | Text | Zero | Unknown | Positional

definition classify :: "string \<Rightarrow> branch" where
  "classify a =
     (if take 1 a = ''-'' then
        if a = ''-a'' \<or> a = ''--append'' then Append
        else if take 2 a = ''-b'' \<or> take 6 a = ''--bits'' then Bits
        else if a = ''-d'' \<or> a = ''--define'' then Define
        else if a = ''-h'' \<or> a = ''--help'' \<or> a = ''-?'' then Help
        else if take 2 a = ''-l'' \<or> take 7 a = ''--label'' then Label
        else if a = ''-m'' \<or> a = ''--mutable'' then Mutable
        else if a = ''-t'' \<or> a = ''--text'' then Text
        else if a = ''-z'' \<or> a = ''--zero'' then Zero
        else Unknown
      else Positional)"

text \<open>The body of the loop \<^verbatim>\<open>for (idx = 1; idx < argc; idx++)\<close> for the argument
  \<open>a\<close> (\<^verbatim>\<open>argv[idx]\<close>) and the arguments \<open>rest\<close> after it. It gives the variables after
  the body, and whether the option took its value from the next argument, or the error
  that ends the program.\<close>

definition parse_arg :: "opts \<Rightarrow> string \<Rightarrow> string list \<Rightarrow> error + opts \<times> bool" where
  "parse_arg st a rest =
     (case classify a of
        Append \<Rightarrow> Inr (st\<lparr>is_appending := True\<rparr>, False)
      | Bits \<Rightarrow>
          (case bits_value a rest of
             None \<Rightarrow> Inl (Invalid_option a)
           | Some (v, next) \<Rightarrow>
               (let b = word_of_int (atoi v) in
                if b \<noteq> 8 \<and> b \<noteq> 16 \<and> b \<noteq> 32 then Inl Invalid_bit_size
                else Inr (st\<lparr>bitsize := b\<rparr>, next)))
      | Define \<Rightarrow> Inr (st\<lparr>use_macro := True\<rparr>, False)
      | Help \<Rightarrow> Inl Usage
      | Label \<Rightarrow>
          (case label_value a rest of
             None \<Rightarrow> Inl (Invalid_option a)
           | Some (v, next) \<Rightarrow> Inr (st\<lparr>symbolname := Some v\<rparr>, next))
      | Mutable \<Rightarrow> Inr (st\<lparr>is_mutable := True\<rparr>, False)
      | Text \<Rightarrow> Inr (st\<lparr>is_textfile := True\<rparr>, False)
      | Zero \<Rightarrow> Inr (st\<lparr>zero_terminate := True\<rparr>, False)
      | Unknown \<Rightarrow> Inr (st, False)
      | Positional \<Rightarrow>
          if f_inputname st = None then Inr (st\<lparr>f_inputname := Some a\<rparr>, False)
          else if f_outputname st = None then Inr (st\<lparr>f_outputname := Some a\<rparr>, False)
          else Inl Too_many_filenames)"

text \<open>The loop over the arguments after \<^verbatim>\<open>argv[0]\<close>.\<close>

fun parse_loop :: "opts \<Rightarrow> string list \<Rightarrow> error + opts" where
  "parse_loop st [] = Inr st"
| "parse_loop st (a # rest) =
     (case parse_arg st a rest of
        Inl err \<Rightarrow> Inl err
      | Inr (st', next) \<Rightarrow> parse_loop st' (if next then tl rest else rest))"

text \<open>\<^verbatim>\<open>if (argc <= 1) about(NULL);\<close> and then the loop; \<open>argv\<close> includes \<^verbatim>\<open>argv[0]\<close>.\<close>

definition parse_args :: "string list \<Rightarrow> error + opts" where
  "parse_args argv = (if length argv \<le> 1 then Inl Usage else parse_loop opts_init (tl argv))"

subsection \<open>File and symbol names\<close>

text \<open>The set of characters \<^verbatim>\<open>"\\/"\<close> that separate directories.\<close>

definition dir_seps :: string where
  "dir_seps = [CHR 0x5C, CHR ''/'']"

text \<open>The output file name when the command line gives none: a copy of the input name,
  cut at its last \<^verbatim>\<open>'.'\<close> when there is one and the name has no directory separator,
  followed by \<^verbatim>\<open>".h"\<close>.\<close>

definition default_outputname :: "string \<Rightarrow> string" where
  "default_outputname inputname =
     (case strrchr inputname CHR ''.'' of
        Some ext \<Rightarrow>
          if strpbrk inputname dir_seps = None then take ext inputname @ ''.h''
          else inputname @ ''.h''
      | None \<Rightarrow> inputname @ ''.h'')"

text \<open>\<^verbatim>\<open>while (strpbrk(fpos, "\\/") != NULL) fpos = strpbrk(fpos, "\\/") + 1;\<close>\<close>

function skip_dirs :: "string \<Rightarrow> string" where
  "skip_dirs fpos =
     (case strpbrk fpos dir_seps of None \<Rightarrow> fpos | Some r \<Rightarrow> skip_dirs (tl r))"
  by pat_completeness auto
termination
proof (relation "measure length")
  show "wf (measure length)" by simp
next
  fix fpos r
  assume "strpbrk fpos dir_seps = Some r"
  then have "r \<noteq> [] \<and> length r \<le> length fpos"
    by (induction fpos) (auto split: if_splits)
  then show "(tl r, fpos) \<in> measure length"
    by (cases r) auto
qed

declare skip_dirs.simps [simp del]

text \<open>The base name: the full name cut at its last \<^verbatim>\<open>'.'\<close>.\<close>

definition strip_ext :: "string \<Rightarrow> string" where
  "strip_ext fullname =
     (case strrchr fullname CHR ''.'' of Some ext \<Rightarrow> take ext fullname | None \<Rightarrow> fullname)"

text \<open>The loop that copies the label template, with \<^verbatim>\<open>$*\<close> replaced by the base name
  and \<^verbatim>\<open>$@\<close> by the full name.\<close>

fun expand :: "string \<Rightarrow> string \<Rightarrow> string \<Rightarrow> string" where
  "expand basename fullname (a # b # cs) =
     (if a = CHR ''$'' \<and> b = CHR ''*'' then basename @ expand basename fullname cs
      else if a = CHR ''$'' \<and> b = CHR ''@'' then fullname @ expand basename fullname cs
      else a # expand basename fullname (b # cs))"
| "expand basename fullname cs = cs"

text \<open>The buffer for the symbol name has \<open>symlen + 1\<close> bytes, where \<open>symlen\<close> counts the
  template and one base name and one full name if the template has the token at all.
  A template that repeats a token can expand to more: then \<^verbatim>\<open>strcat\<close> writes past the
  buffer, which is undefined (\<open>None\<close>).\<close>

definition substitute :: "string \<Rightarrow> string \<Rightarrow> string \<Rightarrow> string option" where
  "substitute basename fullname template =
     (let symlen = length template
            + (if strstr2 template CHR ''$'' CHR ''*'' then length basename else 0)
            + (if strstr2 template CHR ''$'' CHR ''@'' then length fullname else 0);
          name = expand basename fullname template
      in if length name \<le> symlen then Some name else None)"

text \<open>The sanitization of the symbol name works in place on the bytes of the buffer.
  \<open>sanitize_loop\<close> is \<^verbatim>\<open>while (*ptr != '\0') { ...; ptr++; }\<close> on the bytes from
  \<open>ptr\<close> on, and returns the characters before the terminator it stops at. The bytes
  after the terminator of the name are not initialised (or not part of the buffer), so
  that the loop reading on after the last byte of its argument is undefined (\<open>None\<close>).\<close>

fun sanitize_loop :: "string \<Rightarrow> string option" where
  "sanitize_loop [] = None"
| "sanitize_loop (c # cs) =
     (if c = CHR 0x00 then Some []
      else map_option ((#) (if \<not> isalnum c \<and> c \<noteq> CHR ''_'' then CHR ''_'' else c))
             (sanitize_loop cs))"

text \<open>The program first replaces \<^verbatim>\<open>*ptr\<close>, the first byte of the buffer, if it is
  neither a letter nor an underscore, and then runs the loop from the same byte. The
  buffer holds the name and its terminator.\<close>

definition sanitize :: "string \<Rightarrow> string option" where
  "sanitize name =
     (case name @ [CHR 0x00] of
        [] \<Rightarrow> None
      | c # cs \<Rightarrow>
          sanitize_loop ((if \<not> isalpha c \<and> c \<noteq> CHR ''_'' then CHR ''_'' else c) # cs))"

text \<open>The symbol name of a run: the template is the label of the command line or
  \<^verbatim>\<open>"$*"\<close>.\<close>

definition make_symbolname :: "string \<Rightarrow> string option \<Rightarrow> string option" where
  "make_symbolname inputname label =
     (let fullname = skip_dirs inputname;
          basename = strip_ext fullname
      in case substitute basename fullname (case label of None \<Rightarrow> ''$*'' | Some l \<Rightarrow> l) of
           None \<Rightarrow> None
         | Some name \<Rightarrow> sanitize name)"

subsection \<open>Reading the input\<close>

text \<open>\<open>file_size\<close> is the length of the file as \<^verbatim>\<open>ftell\<close> gives it, converted to
  \<^verbatim>\<open>unsigned int\<close>, plus one if a terminator is asked for. The buffer is \<open>file_size\<close>
  zero bytes from \<^verbatim>\<open>calloc\<close>, over which \<^verbatim>\<open>fread\<close> copies the bytes of the file, as
  many as there are and at most \<open>file_size\<close>. The input is read as on a POSIX system,
  where \<^verbatim>\<open>"rt"\<close> and \<^verbatim>\<open>"rb"\<close> are the same and \<^verbatim>\<open>long\<close> holds the length of the file.\<close>

definition input_size :: "bool \<Rightarrow> byte list \<Rightarrow> uint" where
  "input_size zero contents = of_nat (length contents) + (if zero then 1 else 0)"

definition load_buffer :: "bool \<Rightarrow> byte list \<Rightarrow> byte list" where
  "load_buffer zero contents =
     (let file_size = unat (input_size zero contents)
      in take file_size contents @ replicate (file_size - length contents) 0)"

subsection \<open>The program\<close>

text \<open>Everything the program writes to the output file, from the variables it has
  when it opens the file.\<close>

definition output_text :: "opts \<Rightarrow> string \<Rightarrow> uint \<Rightarrow> byte list \<Rightarrow> string" where
  "output_text st name file_size buf =
     (let n = array_size (bitsize st) file_size in
        (if \<not> is_appending st
         then ''/* generated by Bin2C */'' @ [CHR 0x0A] @ ''#include <stdint.h>''
         else []) @
        [CHR 0x0A, CHR 0x0A] @
        (if \<not> is_mutable st then ''const '' else []) @
        ''uint'' @ printf_u (bitsize st) @ ''_t '' @ name @ ''['' @ printf_u n @ ''] = {'' @
        concat (map render (array_body (bitsize st) buf)) @
        [CHR 0x0A] @ ''};'' @ [CHR 0x0A, CHR 0x0A] @
        (if use_macro st then ''#define '' @ name @ ''_size '' @ printf_u n @ [CHR 0x0A]
         else ''const unsigned int '' @ name @ ''_size = '' @ printf_u n @ '';'' @ [CHR 0x0A]))"

text \<open>The files of the system, and which names can be opened for writing.\<close>

record env =
  files :: "string \<rightharpoonup> byte list"
  writable :: "string \<Rightarrow> bool"

text \<open>How a run ends: with status 0, with status 1 after a message, or in behaviour
  that C leaves undefined.\<close>

datatype outcome = Exit_0 | Exit_1 error | Undefined

fun exit_status :: "outcome \<Rightarrow> nat option" where
  "exit_status Exit_0 = Some 0"
| "exit_status (Exit_1 e) = Some 1"
| "exit_status Undefined = None"

text \<open>\<^verbatim>\<open>main\<close>: the outcome of the run and the files after it. The output file is
  opened only after the arguments are parsed, the names are made and the input is read.\<close>

definition main :: "env \<Rightarrow> string list \<Rightarrow> outcome \<times> (string \<rightharpoonup> byte list)" where
  "main e argv =
     (case parse_args argv of
        Inl err \<Rightarrow> (Exit_1 err, files e)
      | Inr st \<Rightarrow>
          (case f_inputname st of
             None \<Rightarrow> (Exit_1 No_input_file, files e)
           | Some inputname \<Rightarrow>
               (let outputname =
                      (case f_outputname st of
                         None \<Rightarrow> default_outputname inputname
                       | Some n \<Rightarrow> n)
                in case make_symbolname inputname (symbolname st) of
                     None \<Rightarrow> (Undefined, files e)
                   | Some name \<Rightarrow>
                       (case files e inputname of
                          None \<Rightarrow> (Exit_1 (Failed_to_open_for_reading inputname), files e)
                        | Some contents \<Rightarrow>
                            (let file_size = input_size (zero_terminate st) contents;
                                 buf = load_buffer (zero_terminate st) contents
                             in if \<not> writable e outputname
                                then (Exit_1 (Failed_to_open_for_writing outputname), files e)
                                else
                                  (let old = (if is_appending st
                                              then (case files e outputname of
                                                      None \<Rightarrow> []
                                                    | Some t \<Rightarrow> t)
                                              else []);
                                       new = map of_char (output_text st name file_size buf)
                                   in (Exit_0, (files e)(outputname \<mapsto> old @ new))))))))"

section \<open>Specification\<close>

text \<open>The byte sequence cut into groups of \<open>n\<close> consecutive bytes; the last group is
  shorter when \<open>n\<close> does not divide the length.\<close>

fun chunks :: "nat \<Rightarrow> 'a list \<Rightarrow> 'a list list" where
  "chunks n xs = (if n = 0 \<or> xs = [] then [] else take n xs # chunks n (drop n xs))"

declare chunks.simps [simp del]

text \<open>The value of a group of bytes read in little-endian order: the first byte is the
  least significant, and bytes that are missing at the end count as zero.\<close>

fun le_word :: "byte list \<Rightarrow> uint" where
  "le_word [] = 0"
| "le_word (b # bs) = ucast b + 256 * le_word bs"

text \<open>The layout of the body of the array for words of \<open>n\<close> bytes, from the word with
  index \<open>k\<close> on: a separator before every word but the first, and a line break with one
  indent before a word exactly when the \<open>k * n\<close> bytes consumed before it are a multiple
  of 16. A word is printed with \<open>2 * n\<close> hexadecimal digits.\<close>

fun layout :: "nat \<Rightarrow> nat \<Rightarrow> byte list list \<Rightarrow> fcall list" where
  "layout n k [] = []"
| "layout n k (c # cs) =
     (if k = 0 then [] else [Sep]) @
     (if (k * n) mod 16 = 0 then [Brk] else []) @
     [Val (2 * n) (le_word c)] @ layout n (Suc k) cs"

text \<open>Unpacking: every word is split into its \<open>n\<close> bytes, least significant first, and
  of the bytes of all words the first \<open>L\<close> are kept, which drops the padding of the last
  word.\<close>

fun word_bytes :: "nat \<Rightarrow> uint \<Rightarrow> byte list" where
  "word_bytes 0 w = []"
| "word_bytes (Suc n) w = ucast w # word_bytes n (drop_bit 8 w)"

definition unpack :: "nat \<Rightarrow> nat \<Rightarrow> uint list \<Rightarrow> byte list" where
  "unpack n L ws = take L (concat (map (word_bytes n) ws))"

text \<open>The texts of the words of the array, without the separators and line breaks.\<close>

fun is_Val :: "fcall \<Rightarrow> bool" where
  "is_Val (Val N w) = True"
| "is_Val c = False"

definition word_texts :: "uint \<Rightarrow> byte list \<Rightarrow> string list" where
  "word_texts w buf = map render (filter is_Val (array_body w buf))"

text \<open>The options of the command line: an argument is a width option or a label
  option by how it starts, it is recognised if it is one of the options of the program,
  and an unknown flag if it starts with \<^verbatim>\<open>'-'\<close> and is not recognised.\<close>

definition bits_opt :: "string \<Rightarrow> bool" where
  "bits_opt a \<longleftrightarrow> take 2 a = ''-b'' \<or> take 6 a = ''--bits''"





text \<open>A system with one file of three bytes, where every file can be written.\<close>

definition env0 :: env where
  "env0 = \<lparr>files = [''in.bin'' \<mapsto> [0x01, 0x02, 0x03]], writable = (\<lambda>name. True)\<rparr>"

text \<open>The output file name as the claim has it: the input file name with the extension
  of the file (what follows the last \<^verbatim>\<open>'.'\<close> of the name after the directories) replaced
  by \<^verbatim>\<open>.h\<close>, and \<^verbatim>\<open>.h\<close> appended when the file has no extension.\<close>

definition outputname_claimed :: "string \<Rightarrow> string" where
  "outputname_claimed name =
     (let base = skip_dirs name;
          dir = take (length name - length base) name
      in case strrchr base CHR ''.'' of
           Some ext \<Rightarrow> dir @ take ext base @ ''.h''
         | None \<Rightarrow> name @ ''.h'')"

text \<open>A character is legal at a position of a C identifier: a letter or an underscore
  at the first position, a letter, a digit or an underscore after it. The sanitized name
  keeps the legal characters and has an underscore for every other one.\<close>

definition legal_at :: "nat \<Rightarrow> char \<Rightarrow> bool" where
  "legal_at i c \<longleftrightarrow> (if i = 0 then isalpha c \<or> c = CHR ''_'' else isalnum c \<or> c = CHR ''_'')"

definition sanitized :: "string \<Rightarrow> string" where
  "sanitized name = map (\<lambda>(i, c). if legal_at i c then c else CHR ''_'') (enumerate 0 name)"

text \<open>What the program prints from a state of the loop on: what it has printed, and the
  partial word if there is one.\<close>

definition finish :: "uint \<Rightarrow> loop_state \<Rightarrow> fcall list" where
  "finish w s = printed s @
         (if bits s > 0 then print_word w (need_comma s) (need_newline s) (word s)
          else [])"

text \<open>The state of the loop before the first byte of the word with index \<open>k\<close>.\<close>

definition at_word :: "nat \<Rightarrow> nat \<Rightarrow> loop_state \<Rightarrow> bool" where
  "at_word n k s \<longleftrightarrow> word s = 0 \<and> bits s = 0 \<and> need_comma s = (k \<noteq> 0) \<and>
     need_newline s = ((k * n) mod 16 = 0) \<and> idx s = of_nat (k * n)"


text \<open>Induction over a list two, and four, elements at a time.\<close>

fun by2 :: "'a list \<Rightarrow> nat" where
  "by2 (a # b # r) = Suc (by2 r)"
| "by2 [a] = 0"
| "by2 [] = 0"

fun by4 :: "'a list \<Rightarrow> nat" where
  "by4 (a # b # c # d # r) = Suc (by4 r)"
| "by4 [a, b, c] = 0"
| "by4 [a, b] = 0"
| "by4 [a] = 0"
| "by4 [] = 0"

section \<open>The packing loop\<close>

lemma of_nat_and_15: "((of_nat m :: 32 word) AND 0x0f = 0) \<longleftrightarrow> m mod 16 = 0"
proof -
  have "(of_nat m :: 32 word) AND mask 4 = 0 \<longleftrightarrow> 2 ^ 4 dvd unat (of_nat m :: 32 word)"
    using and_mask_dvd_nat [of 4 "of_nat m :: 32 word"] by simp
  also have "\<dots> \<longleftrightarrow> 16 dvd m mod 2 ^ 32"
    by (simp add: unat_of_nat take_bit_eq_mod)
  also have "\<dots> \<longleftrightarrow> m mod 16 = 0"
  proof -
    have "(16::nat) dvd 2 ^ 32" by simp
    then have "m mod 2 ^ 32 mod 16 = m mod 16" by (rule mod_mod_cancel)
    then show ?thesis by (simp only: dvd_eq_mod_eq_0)
  qed
  finally show ?thesis by (simp add: mask_eq_exp_minus_1)
qed

lemma le_step: "ucast (b::byte) + 256 * (x::uint) = ucast b OR push_bit 8 x"
proof -
  have "ucast b + push_bit 8 x = ucast b OR push_bit 8 x"
    by (rule disjunctive_add) (auto simp add: bit_simps dest: bit_imp_le_length)
  then show ?thesis by (simp add: push_bit_eq_mult mult.commute)
qed

lemma le_word_or: "le_word (b # bs) = ucast b OR push_bit 8 (le_word bs)"
  by (simp add: le_step)

lemma le_word_1: "(0::uint) OR push_bit 0 (ucast a) = le_word [a]"
  by simp

lemma le_word_2: "((0::uint) OR push_bit 0 (ucast a)) OR push_bit 8 (ucast b) = le_word [a, b]"
  by (simp del: le_word.simps add: le_word_or le_word.simps(1))

lemma le_word_3:
  "(((0::uint) OR push_bit 0 (ucast a)) OR push_bit 8 (ucast b)) OR push_bit 16 (ucast c) =
   le_word [a, b, c]"
  by (simp del: le_word.simps add: le_word_or le_word.simps(1) push_bit_or or.assoc)

lemma le_word_4:
  "((((0::uint) OR push_bit 0 (ucast a)) OR push_bit 8 (ucast b)) OR push_bit 16 (ucast c)) OR
   push_bit 24 (ucast d) = le_word [a, b, c, d]"
  by (simp del: le_word.simps add: le_word_or le_word.simps(1) push_bit_or or.assoc)

lemma chunks_Nil [simp]: "chunks n [] = []"
  by (simp add: chunks.simps)

lemma chunks_1 [simp]: "chunks (Suc 0) (a # r) = [a] # chunks (Suc 0) r"
  by (subst chunks.simps) simp

lemma chunks_2 [simp]: "chunks 2 [a] = [[a]]" "chunks 2 (a # b # r) = [a, b] # chunks 2 r"
  by (subst chunks.simps, simp)+

lemma chunks_4 [simp]: "chunks 4 [a] = [[a]]" "chunks 4 [a, b] = [[a, b]]"
  "chunks 4 [a, b, c] = [[a, b, c]]" "chunks 4 (a # b # c # d # r) = [a, b, c, d] # chunks 4 r"
  by (subst chunks.simps, simp)+

lemma at_word_next:
  assumes "word t = 0" "bits t = 0" "need_comma t" "idx t = of_nat (Suc k * n)"
    "need_newline t = (idx t AND 0x0f = 0)"
  shows "at_word n (Suc k) t"
  using assms by (simp only: at_word_def of_nat_and_15) simp

lemma pack8:
  "at_word 1 k s \<Longrightarrow> finish 8 (pack_loop 8 s buf) = printed s @ layout 1 k (chunks 1 buf)"
proof (induction buf arbitrary: k s)
  case Nil
  then show ?case by (simp add: finish_def at_word_def)
next
  case (Cons b buf)
  let ?s = "loop_body 8 s b"
  have 1: "at_word 1 (Suc k) ?s"
    using Cons.prems by (intro at_word_next) (simp_all add: at_word_def loop_body_def)
  have 2: "printed ?s = printed s @ (if k = 0 then [] else [Sep]) @
     (if (k * 1) mod 16 = 0 then [Brk] else []) @ [Val 2 (le_word [b])]"
    using Cons.prems by (simp add: at_word_def loop_body_def print_word_def)
  show ?case using Cons.IH [OF 1] by (simp add: 2)
qed

lemma pack16:
  "at_word 2 k s \<Longrightarrow> finish 16 (pack_loop 16 s buf) = printed s @ layout 2 k (chunks 2 buf)"
proof (induction buf arbitrary: k s rule: by2.induct)
  case (1 a b r)
  let ?s = "loop_body 16 (loop_body 16 s a) b"
  have 1: "at_word 2 (Suc k) ?s"
    using "1.prems" by (intro at_word_next) (simp_all add: at_word_def loop_body_def)
  have 2: "printed ?s = printed s @ (if k = 0 then [] else [Sep]) @
     (if (k * 2) mod 16 = 0 then [Brk] else []) @ [Val 4 (le_word [a, b])]"
    using "1.prems" le_word_2 [of a b]
    by (simp del: le_word.simps add: at_word_def loop_body_def print_word_def)
  show ?case using "1.IH" [OF 1] by (simp del: le_word.simps add: 2)
next
  case 3
  then show ?case by (simp add: finish_def at_word_def)
next
  case (2 v)
  then show ?case using le_word_1 [of v]
    by (simp del: le_word.simps add: finish_def at_word_def loop_body_def print_word_def)
qed

lemma pack32:
  "at_word 4 k s \<Longrightarrow> finish 32 (pack_loop 32 s buf) = printed s @ layout 4 k (chunks 4 buf)"
proof (induction buf arbitrary: k s rule: by4.induct)
  case (1 a b c d r)
  let ?s = "loop_body 32 (loop_body 32 (loop_body 32 (loop_body 32 s a) b) c) d"
  have 1: "at_word 4 (Suc k) ?s"
    using "1.prems" by (intro at_word_next) (simp_all add: at_word_def loop_body_def)
  have 2: "printed ?s = printed s @ (if k = 0 then [] else [Sep]) @
     (if (k * 4) mod 16 = 0 then [Brk] else []) @ [Val 8 (le_word [a, b, c, d])]"
    using "1.prems" le_word_4 [of a b c d]
    by (simp del: le_word.simps add: at_word_def loop_body_def print_word_def)
  show ?case using "1.IH" [OF 1] by (simp del: le_word.simps add: 2)
next
  case 5
  then show ?case by (simp add: finish_def at_word_def)
next
  case (4 v)
  then show ?case using le_word_1 [of v]
    by (simp del: le_word.simps add: finish_def at_word_def loop_body_def print_word_def)
next
  case (3 v va)
  then show ?case using le_word_2 [of v va]
    by (simp del: le_word.simps add: finish_def at_word_def loop_body_def print_word_def)
next
  case (2 v va vb)
  then show ?case using le_word_3 [of v va vb]
    by (simp del: le_word.simps add: finish_def at_word_def loop_body_def print_word_def)
qed

lemma at_word_init: "at_word n 0 loop_init"
  by (simp add: at_word_def loop_init_def)

lemma array_body_layout:
  "array_body 8 buf = layout 1 0 (chunks 1 buf)"
  "array_body 16 buf = layout 2 0 (chunks 2 buf)"
  "array_body 32 buf = layout 4 0 (chunks 4 buf)"
  using pack8 [OF at_word_init, of buf] pack16 [OF at_word_init, of buf] pack32 [OF at_word_init, of buf]
  by (simp_all add: array_body_def finish_def Let_def loop_init_def)


lemma fcall_words_append: "fcall_words (xs @ ys) = fcall_words xs @ fcall_words ys"
  by (induction xs rule: fcall_words.induct) simp_all

lemma fcall_words_layout: "fcall_words (layout n k cs) = map le_word cs"
  by (induction cs arbitrary: k) (simp_all del: le_word.simps add: fcall_words_append)

lemma filter_layout:
  "filter is_Val (layout n k cs) = map (\<lambda>c. Val (2 * n) (le_word c)) cs"
  by (induction cs arbitrary: k) (simp_all del: le_word.simps)

lemma concat_chunks: "0 < n \<Longrightarrow> concat (chunks n xs) = xs"
proof (induction n xs rule: chunks.induct)
  case (1 n xs)
  then show ?case by (subst chunks.simps) simp
qed

lemma chunks_length: "c \<in> set (chunks n xs) \<Longrightarrow> 0 < length c \<and> length c \<le> n"
proof (induction n xs rule: chunks.induct)
  case (1 n xs)
  from "1.prems" have ne: "n \<noteq> 0" "xs \<noteq> []"
    by (auto simp add: chunks.simps [of n xs] split: if_splits)
  with "1.prems" have "c = take n xs \<or> c \<in> set (chunks n (drop n xs))"
    by (simp add: chunks.simps [of n xs])
  then show ?case using "1.IH" ne by auto
qed

lemma chunks_butlast: "c \<in> set (butlast (chunks n xs)) \<Longrightarrow> length c = n"
proof (induction n xs rule: chunks.induct)
  case (1 n xs)
  from "1.prems" have ne: "n \<noteq> 0" "xs \<noteq> []"
    by (auto simp add: chunks.simps [of n xs] split: if_splits)
  show ?case
  proof (cases "chunks n (drop n xs) = []")
    case True
    with "1.prems" ne show ?thesis by (simp add: chunks.simps [of n xs])
  next
    case False
    then have "drop n xs \<noteq> []" by (auto simp add: chunks.simps [of n "drop n xs"])
    then have len: "length (take n xs) = n" by simp
    from "1.prems" ne False have "c = take n xs \<or> c \<in> set (butlast (chunks n (drop n xs)))"
      by (simp add: chunks.simps [of n xs])
    then show ?thesis using "1.IH" ne len by auto
  qed
qed

lemma length_chunks: "0 < n \<Longrightarrow> length (chunks n xs) = (length xs + n - 1) div n"
proof (induction n xs rule: chunks.induct)
  case (1 n xs)
  show ?case
  proof (cases "xs = []")
    case True
    then show ?thesis using "1.prems" by simp
  next
    case False
    then have "length (chunks n xs) = Suc ((length (drop n xs) + n - 1) div n)"
      using "1.IH" "1.prems" by (simp add: chunks.simps [of n xs])
    also have "\<dots> = (length xs + n - 1) div n"
    proof (cases "n \<le> length xs")
      case True
      define X where "X = length (drop n xs) + n - 1"
      have "length xs + n - 1 = X + n"
        unfolding X_def using True "1.prems" by simp
      moreover have "(X + n) div n = Suc (X div n)"
        using "1.prems" by (simp add: div_add_self2)
      ultimately show ?thesis by (simp only: X_def)
    next
      case False
      then have "length (drop n xs) = 0" by simp
      moreover have "(length xs + n - 1) div n = 1"
      proof -
        have "0 < length xs" using \<open>xs \<noteq> []\<close> by simp
        then have "n \<le> length xs + n - 1" "length xs + n - 1 < 2 * n"
          using False by arith+
        then show ?thesis by (intro div_nat_eqI) simp_all
      qed
      ultimately show ?thesis using "1.prems" by simp
    qed
    finally show ?thesis .
  qed
qed

subsection \<open>The width of a printed word, and the bytes of a word\<close>

lemma length_hex_of_nat: "0 < k \<Longrightarrow> x < 16 ^ k \<Longrightarrow> length (hex_of_nat x) \<le> k"
proof (induction x arbitrary: k rule: hex_of_nat.induct)
  case (1 x)
  show ?case
  proof (cases "x < 16")
    case True
    then show ?thesis using "1.prems" by (simp add: hex_of_nat.simps [of x])
  next
    case False
    then obtain j where k: "k = Suc j" "0 < j"
      using "1.prems" by (cases k; cases "k - 1") auto
    then have "x div 16 < 16 ^ j"
      using "1.prems" by (simp add: less_mult_imp_div_less mult.commute)
    then have "length (hex_of_nat (x div 16)) \<le> j"
      using "1.IH" False k by simp
    then show ?thesis using False k by (simp add: hex_of_nat.simps [of x])
  qed
qed

lemma length_printf_0x:
  "0 < N \<Longrightarrow> unat w < 16 ^ N \<Longrightarrow> length (printf_0x N w) = 2 + N"
  using length_hex_of_nat [of N "unat w"] by (simp add: printf_0x_def Let_def)

lemma unat_le_word: "unat (le_word c) < 256 ^ length c"
proof (induction c)
  case Nil
  then show ?case by simp
next
  case (Cons b c)
  have "unat (le_word (b # c)) \<le> unat (ucast b :: uint) + unat (256 * le_word c)"
    by (simp add: unat_word_ariths)
  also have "unat (256 * le_word c) \<le> 256 * unat (le_word c)"
    by (simp add: unat_word_ariths)
  also have "unat (ucast b :: uint) \<le> unat b"
    by (simp add: unsigned_ucast_eq take_bit_eq_mod)
  also have "unat b < 256"
    using unsigned_less [of b] by simp
  finally have "unat (le_word (b # c)) < 256 + 256 * unat (le_word c)"
    by simp
  also have "\<dots> \<le> 256 * 256 ^ length c"
    using Cons.IH by simp
  finally show ?case by simp
qed

lemma length_printed_word:
  assumes "0 < n" "length c \<le> n"
  shows "length (printf_0x (2 * n) (le_word c)) = 2 + 2 * n"
proof -
  have "unat (le_word c) < 256 ^ length c" by (rule unat_le_word)
  also have "(256::nat) ^ length c \<le> 256 ^ n"
    using assms by (simp add: power_increasing)
  also have "(256::nat) ^ n = 16 ^ (2 * n)"
    by (simp add: power_mult)
  finally show ?thesis using assms by (intro length_printf_0x) simp_all
qed

lemma le_word_pad: "le_word (c @ replicate j 0) = le_word c"
  by (induction c) (simp_all, induction j, simp_all)

lemma ucast_le_step: "ucast (ucast (b::byte) OR push_bit 8 (x::uint)) = b"
  by (rule bit_eqI) (auto simp add: bit_simps dest: bit_imp_le_length)

lemma drop_le_step:
  "(\<And>i. bit x i \<Longrightarrow> i < 24) \<Longrightarrow> drop_bit 8 (ucast (b::byte) OR push_bit 8 (x::uint)) = x"
  by (rule bit_eqI) (auto simp add: bit_simps dest: bit_imp_le_length)

lemma bit_le_word: "bit (le_word c) i \<Longrightarrow> i < 8 * length c"
proof (induction c arbitrary: i)
  case Nil
  then show ?case by simp
next
  case (Cons b c)
  from Cons.prems have "bit (ucast b :: uint) i \<or> (8 \<le> i \<and> bit (le_word c) (i - 8))"
    by (simp only: le_word_or) (auto simp add: bit_simps)
  then show ?case
  proof
    assume "bit (ucast b :: uint) i"
    then have "i < 8" by (auto simp add: bit_simps dest: bit_imp_le_length)
    then show ?thesis by simp
  next
    assume a: "8 \<le> i \<and> bit (le_word c) (i - 8)"
    then have "i - 8 < 8 * length c" using Cons.IH by blast
    then show ?thesis using a by simp
  qed
qed

lemma word_bytes_0: "word_bytes n 0 = replicate n 0"
  by (induction n) simp_all

lemma word_bytes_le_word:
  "length c \<le> n \<Longrightarrow> n \<le> 4 \<Longrightarrow> word_bytes n (le_word c) = c @ replicate (n - length c) 0"
proof (induction n arbitrary: c)
  case 0
  then show ?case by simp
next
  case (Suc n)
  show ?case
  proof (cases c)
    case Nil
    then show ?thesis by (simp add: word_bytes_0)
  next
    case (Cons b bs)
    have "\<And>i. bit (le_word bs) i \<Longrightarrow> i < 24"
      using bit_le_word [of bs] Suc.prems Cons by fastforce
    then have "drop_bit 8 (le_word (b # bs)) = le_word bs"
      by (simp only: le_word_or drop_le_step)
    moreover have "ucast (le_word (b # bs)) = b"
      by (simp only: le_word_or ucast_le_step)
    ultimately show ?thesis using Suc Cons by (simp del: le_word.simps)
  qed
qed

lemma take_padded_chunks:
  "0 < n \<Longrightarrow>
   take (length xs) (concat (map (\<lambda>c. c @ replicate (n - length c) z) (chunks n xs))) = xs"
proof (induction n xs rule: chunks.induct)
  case (1 n xs)
  show ?case
  proof (cases "xs = []")
    case True
    then show ?thesis by simp
  next
    case False
    show ?thesis
    proof (cases "n \<le> length xs")
      case True
      then have "length (take n xs) = n" by simp
      moreover have "length xs - n = length (drop n xs)" by simp
      ultimately show ?thesis
        using "1.IH" "1.prems" False True
        by (simp add: chunks.simps [of n xs] min_def)
    next
      case le: False
      then have "drop n xs = []" by simp
      then show ?thesis using False "1.prems" by (simp add: chunks.simps [of n xs])
    qed
  qed
qed


subsection \<open>The claims about the packing loop\<close>

lemma array_body_width:
  assumes "(w, n) \<in> {(8, 1), (16, 2), (32, 4::nat)}"
  shows "array_body w buf = layout n 0 (chunks n buf)"
  using assms array_body_layout [of buf] by auto

text \<open>
  Claim C2. For every buffer and every width \<open>w\<close> of 8, 16 or 32 bits, with \<open>n = w / 8\<close>:
  the words that the program prints are the little-endian values of the groups of \<open>n\<close>
  consecutive bytes of the buffer (the groups put together are the buffer, every group
  but the last has \<open>n\<close> bytes and the last has between 1 and \<open>n\<close>); a short last group has
  the value it would have with zero bytes in the missing high-order places; every word
  is printed as \<^verbatim>\<open>0x\<close> followed by exactly \<open>2 * n\<close> hexadecimal digits. The bytes 01 02 03
  at width 16 give the words \<^verbatim>\<open>0x0201\<close> and \<^verbatim>\<open>0x0003\<close>.
\<close>

theorem words_little_endian:
  assumes "(w, n) \<in> {(8, 1), (16, 2), (32, 4::nat)}"
  shows "emitted_words w buf = map le_word (chunks n buf) \<and>
         concat (chunks n buf) = buf \<and>
         (\<forall>c \<in> set (chunks n buf). 0 < length c \<and> length c \<le> n) \<and>
         (\<forall>c \<in> set (butlast (chunks n buf)). length c = n) \<and>
         (\<forall>c \<in> set (chunks n buf). le_word c = le_word (c @ replicate (n - length c) 0)) \<and>
         word_texts w buf = map (\<lambda>c. printf_0x (2 * n) (le_word c)) (chunks n buf) \<and>
         (\<forall>t \<in> set (word_texts w buf). length t = 2 + 2 * n) \<and>
         emitted_words 16 [0x01, 0x02, 0x03] = [0x0201, 0x0003] \<and>
         word_texts 16 [0x01, 0x02, 0x03] = [''0x0201'', ''0x0003'']"
proof -
  have n: "0 < n" using assms by auto
  have body: "array_body w buf = layout n 0 (chunks n buf)"
    using assms by (rule array_body_width)
  have texts: "word_texts w buf = map (\<lambda>c. printf_0x (2 * n) (le_word c)) (chunks n buf)"
    by (simp add: word_texts_def body filter_layout comp_def)
  have "emitted_words w buf = map le_word (chunks n buf)"
    by (simp add: emitted_words_def body fcall_words_layout)
  moreover have "concat (chunks n buf) = buf"
    using n by (rule concat_chunks)
  moreover have "\<forall>c \<in> set (chunks n buf). 0 < length c \<and> length c \<le> n"
    using chunks_length by blast
  moreover have "\<forall>c \<in> set (butlast (chunks n buf)). length c = n"
    using chunks_butlast by blast
  moreover have "\<forall>c \<in> set (chunks n buf). le_word c = le_word (c @ replicate (n - length c) 0)"
    by (simp only: le_word_pad) simp
  moreover have "\<forall>t \<in> set (word_texts w buf). length t = 2 + 2 * n"
    using n chunks_length [of _ n buf] by (auto simp add: texts length_printed_word)
  moreover have "emitted_words 16 [0x01, 0x02, 0x03] = [0x0201, 0x0003]"
    by code_simp
  moreover have "word_texts 16 [0x01, 0x02, 0x03] = [''0x0201'', ''0x0003'']"
    by code_simp
  ultimately show ?thesis using texts by blast
qed

theorem words_little_endian_witness:
  "emitted_words 32 [0x11, 0x22, 0x33, 0x44, 0x55] = [0x44332211, 0x00000055]"
proof -
  have "((32::uint), 4::nat) \<in> {(8, 1), (16, 2), (32, 4)}" by simp
  from words_little_endian [OF this, of "[0x11, 0x22, 0x33, 0x44, 0x55]"]
  have "emitted_words 32 [0x11, 0x22, 0x33, 0x44, 0x55] =
      map le_word (chunks 4 [0x11, 0x22, 0x33, 0x44, 0x55])"
    by blast
  also have "\<dots> = [0x44332211, 0x00000055]"
    by code_simp
  finally show ?thesis .
qed

text \<open>
  Claim C3. For every buffer and every width of 8, 16 or 32 bits, unpacking the printed
  words (every word split into its \<open>n\<close> bytes, least significant first, and only as many
  bytes kept as the buffer has) gives back the buffer.
\<close>

theorem unpack_packed:
  assumes "(w, n) \<in> {(8, 1), (16, 2), (32, 4::nat)}"
  shows "unpack n (length buf) (emitted_words w buf) = buf"
proof -
  have n: "0 < n" "n \<le> 4" using assms by auto
  have "emitted_words w buf = map le_word (chunks n buf)"
    using assms by (simp add: emitted_words_def array_body_width fcall_words_layout)
  moreover have "map (word_bytes n) (map le_word (chunks n buf)) =
      map (\<lambda>c. c @ replicate (n - length c) 0) (chunks n buf)"
    unfolding map_map
    by (rule map_cong) (use n chunks_length [of _ n buf] in \<open>simp_all add: word_bytes_le_word\<close>)
  ultimately show ?thesis
    using n take_padded_chunks [of n buf 0] by (simp only: unpack_def)
qed

theorem unpack_packed_witness:
  "unpack 2 3 (emitted_words 16 [0x01, 0x02, 0x03]) = [0x01, 0x02, 0x03]"
proof -
  have "((16::uint), 2::nat) \<in> {(8, 1), (16, 2), (32, 4)}" by simp
  from unpack_packed [OF this, of "[0x01, 0x02, 0x03]"] show ?thesis
    by (simp add: eval_nat_numeral)
qed



section \<open>The element count and the buffer\<close>

text \<open>For sizes that do not wrap, the program computes the number of words that it
  prints, which is the buffer length divided by the bytes of a word and rounded up.\<close>

lemma drop_bit_3_widths:
  "drop_bit 3 (8::uint) = 1" "drop_bit 3 (16::uint) = 2" "drop_bit 3 (32::uint) = 4"
  by (simp_all add: drop_bit_eq_div)

lemma array_size_ceil:
  assumes "(w, n) \<in> {(8, 1), (16, 2), (32, 4::nat)}" and "unat L + (n - 1) < 2 ^ 32"
  shows "unat (array_size w L) = (unat L + n - 1) div n"
proof -
  have d: "drop_bit 3 w = of_nat n" and n: "0 < n" "n \<le> 4"
    using assms(1) by (auto simp add: drop_bit_3_widths)
  have un: "unat (of_nat n :: uint) = n"
    using n by (simp add: unat_of_nat)
  have "unat (of_nat n - 1 :: uint) = n - 1"
    using n un by (simp add: unat_sub word_le_nat_alt)
  then have "unat (L + (of_nat n - 1)) = unat L + (n - 1)"
    using assms(2) by (simp add: unat_add_lem [THEN iffD1])
  then show ?thesis
    using n by (simp add: array_size_def d unat_div un)
qed

lemma length_emitted_words:
  assumes "(w, n) \<in> {(8, 1), (16, 2), (32, 4::nat)}"
  shows "length (emitted_words w buf) = (length buf + n - 1) div n"
proof -
  have "0 < n" using assms by auto
  then show ?thesis
    using assms by (simp add: emitted_words_def array_body_width fcall_words_layout length_chunks)
qed

lemma array_size_printed_twice:
  "output_text st name file_size buf =
     (let n = printf_u (array_size (bitsize st) file_size) in
        (if \<not> is_appending st
         then ''/* generated by Bin2C */'' @ [CHR 0x0A] @ ''#include <stdint.h>''
         else []) @
        [CHR 0x0A, CHR 0x0A] @
        (if \<not> is_mutable st then ''const '' else []) @
        ''uint'' @ printf_u (bitsize st) @ ''_t '' @ name @ ''['' @ n @ ''] = {'' @
        concat (map render (array_body (bitsize st) buf)) @
        [CHR 0x0A] @ ''};'' @ [CHR 0x0A, CHR 0x0A] @
        (if use_macro st then ''#define '' @ name @ ''_size '' @ n @ [CHR 0x0A]
         else ''const unsigned int '' @ name @ ''_size = '' @ n @ '';'' @ [CHR 0x0A]))"
  by (simp add: output_text_def Let_def)

text \<open>
  Claim C1. The claim holds as long as the sum in the program does not wrap
  (\<open>array_size_ceil\<close>), and the number between the brackets is the number of the size
  declaration (\<open>array_size_printed_twice\<close>). It fails at the top of the range of
  \<^verbatim>\<open>unsigned int\<close>: for a file of 4294967295 bytes and 16-bit words, \<open>file_size + 1\<close> wraps
  to 0 and the element count is 0, while the loop prints 2147483648 words.
\<close>

theorem array_size_wraps:
  "input_size False (replicate 4294967295 0) = 4294967295 \<and>
   array_size 16 4294967295 = 0 \<and>
   length (emitted_words 16 (replicate 4294967295 0)) = 2147483648"
proof -
  have "((16::uint), 2::nat) \<in> {(8, 1), (16, 2), (32, 4)}" by simp
  from length_emitted_words [OF this, of "replicate 4294967295 0"]
  have "length (emitted_words 16 (replicate 4294967295 0)) = 2147483648" by simp
  moreover have "array_size 16 4294967295 = 0"
    by (simp add: array_size_def drop_bit_3_widths)
  moreover have "input_size False (replicate 4294967295 0) = 4294967295"
    by (simp add: input_size_def)
  ultimately show ?thesis by blast
qed

text \<open>Below the top of the range of \<^verbatim>\<open>unsigned int\<close>, the buffer is the file, with one
  zero byte after it if a terminator is asked for.\<close>

lemma load_buffer_plain:
  "length contents < 2 ^ 32 \<Longrightarrow> load_buffer False contents = contents"
  by (simp add: load_buffer_def input_size_def unat_of_nat)

lemma load_buffer_zero:
  assumes "length contents < 2 ^ 32 - 1"
  shows "load_buffer True contents = contents @ [0]"
    and "unat (input_size True contents) = length contents + 1"
proof -
  have "unat (of_nat (length contents) + 1 :: uint) = length contents + 1"
    using assms by (simp add: unat_word_ariths unat_of_nat)
  then show "unat (input_size True contents) = length contents + 1"
    by (simp add: input_size_def)
  then show "load_buffer True contents = contents @ [0]"
    by (simp add: load_buffer_def)
qed

text \<open>
  Claim C7. With \<^verbatim>\<open>--zero\<close>, the buffer of an empty file is the single byte 0, printed
  as one element \<^verbatim>\<open>0x00\<close> at width 8 with the size 1, and the buffer of a file of fewer
  than 4294967295 bytes is the file and one zero byte (\<open>load_buffer_zero\<close>). For a file
  of 4294967295 bytes \<^verbatim>\<open>file_size += 1\<close> wraps to 0: the buffer is empty, and has neither
  the bytes of the file nor the terminator.
\<close>

theorem zero_terminator_wraps:
  "input_size True (replicate 4294967295 1) = 0 \<and>
   load_buffer True (replicate 4294967295 1) = [] \<and>
   load_buffer True [] = [0] \<and> array_body 8 (load_buffer True []) = [Brk, Val 2 0] \<and>
   array_size 8 (input_size True []) = 1"
proof -
  have 1: "input_size True (replicate 4294967295 1) = 0"
    by (simp add: input_size_def)
  then have "load_buffer True (replicate 4294967295 1) = []"
    by (simp add: load_buffer_def)
  moreover have "load_buffer True [] = [0]"
    by (simp add: load_buffer_def input_size_def)
  moreover have "array_body 8 [0] = [Brk, Val 2 0]"
    by (simp add: array_body_layout)
  moreover have "array_size 8 (input_size True []) = 1"
    by (simp add: array_size_def input_size_def drop_bit_3_widths)
  ultimately show ?thesis using 1 by simp
qed

section \<open>The command line\<close>





lemma classify_Bits: "classify a = Bits \<Longrightarrow> bits_opt a"
  by (simp add: classify_def bits_opt_def split: if_splits)



lemma parse_arg_bitsize:
  "parse_arg st a rest = Inr (st', t) \<Longrightarrow>
   bitsize st' = bitsize st \<or> (bits_opt a \<and> bitsize st' \<in> {8, 16, 32})"
  by (cases "classify a")
     (auto simp add: parse_arg_def Let_def classify_Bits split: if_splits option.splits)







lemma parse_loop_default_bitsize:
  "parse_loop st args = Inr st' \<Longrightarrow> \<forall>a \<in> set args. \<not> bits_opt a \<Longrightarrow> bitsize st' = bitsize st"
proof (induction st args rule: parse_loop.induct)
  case (1 st)
  then show ?case by simp
next
  case (2 st a rest)
  from "2.prems" obtain st1 t where step: "parse_arg st a rest = Inr (st1, t)"
    by (auto split: sum.splits)
  then have "bitsize st1 = bitsize st"
    using parse_arg_bitsize [OF step] "2.prems"(2) by auto
  moreover have "parse_loop st1 (if t then tl rest else rest) = Inr st'"
    using "2.prems" step by simp
  moreover have "\<forall>a \<in> set (if t then tl rest else rest). \<not> bits_opt a"
    using "2.prems"(2) by (cases rest) auto
  ultimately show ?case using "2.IH" [of "(st1, t)" st1 t] step by simp
qed









lemma parse_in_bin:
  "parse_loop opts_init [''in.bin''] = Inr (opts_init\<lparr>f_inputname := Some ''in.bin''\<rparr>)"
  by (simp add: parse_arg_def classify_def opts_init_def)




lemma chunks_1_map: "chunks (Suc 0) buf = map (\<lambda>b. [b]) buf"
  by (induction buf) simp_all

lemma hex_two_digits: "n < 256 \<Longrightarrow>
  replicate (2 - length (hex_of_nat n)) CHR ''0'' @ hex_of_nat n = [hex_digit (n div 16), hex_digit (n mod 16)]"
proof (cases "n < 16")
  case True
  then show ?thesis by (simp add: hex_of_nat.simps [of n] hex_digit_def)
next
  case False
  assume "n < 256"
  then have "n div 16 < 16" by simp
  then show ?thesis using False
    by (simp add: hex_of_nat.simps [of n] hex_of_nat.simps [of "n div 16"])
qed

lemma printf_byte:
  "printf_0x 2 (ucast (b::byte)) = ''0x'' @ [hex_digit (unat b div 16), hex_digit (unat b mod 16)]"
proof -
  have "unat b < 2 ^ LENGTH(8)" by (rule unsigned_less)
  then have "unat b < 256" by simp
  moreover from this have "unat (ucast b :: uint) = unat b"
    by (simp add: unsigned_ucast_eq take_bit_eq_mod)
  ultimately show ?thesis by (simp add: printf_0x_def Let_def hex_two_digits)
qed

text \<open>
  Claim C10. When no argument of the command line is a width option and the argument
  loop succeeds, the width is 8, the words of the array are the bytes of the buffer, one
  word for each byte, and each is printed as \<^verbatim>\<open>0x\<close> and two hexadecimal digits.
\<close>

theorem default_width:
  assumes "\<forall>a \<in> set args. \<not> bits_opt a" and "parse_args (prog # args) = Inr st"
  shows "bitsize st = 8 \<and>
         emitted_words (bitsize st) buf = map ucast buf \<and>
         word_texts (bitsize st) buf =
           map (\<lambda>b. ''0x'' @ [hex_digit (unat b div 16), hex_digit (unat b mod 16)]) buf"
proof -
  from assms(2) have "parse_loop opts_init args = Inr st"
    by (simp add: parse_args_def split: if_splits)
  then have b: "bitsize st = 8"
    using parse_loop_default_bitsize [of opts_init args st] assms(1) by (simp add: opts_init_def)
  have "emitted_words 8 buf = map ucast buf"
    by (simp add: emitted_words_def array_body_layout fcall_words_layout chunks_1_map comp_def)
  moreover have "word_texts 8 buf =
      map (\<lambda>b. ''0x'' @ [hex_digit (unat b div 16), hex_digit (unat b mod 16)]) buf"
    using printf_byte
    by (simp add: word_texts_def array_body_layout filter_layout chunks_1_map comp_def)
  ultimately show ?thesis using b by simp
qed

theorem default_width_witness:
  "word_texts 8 [0x01, 0xab, 0xff] = [''0x01'', ''0xab'', ''0xff'']"
proof -
  have 1: "\<forall>a \<in> set [''in.bin'']. \<not> bits_opt a"
    by (simp add: bits_opt_def)
  have 2: "parse_args (''bin2c'' # [''in.bin'']) = Inr (opts_init\<lparr>f_inputname := Some ''in.bin''\<rparr>)"
    using parse_in_bin by (simp add: parse_args_def del: parse_loop.simps)
  have 3: "bitsize (opts_init\<lparr>f_inputname := Some ''in.bin''\<rparr>) = 8"
    by (simp add: opts_init_def)
  from default_width [OF 1 2, of "[0x01, 0xab, 0xff]"]
  have "word_texts 8 [0x01, 0xab, 0xff] =
      map (\<lambda>b::byte. ''0x'' @ [hex_digit (unat b div 16), hex_digit (unat b mod 16)]) [0x01, 0xab, 0xff]"
    by (simp only: 3)
  also have "\<dots> = [''0x01'', ''0xab'', ''0xff'']"
    by (simp add: hex_digit_def)
  finally show ?thesis .
qed











section \<open>The symbol name and the output file name\<close>

text \<open>On a name that is not empty, the sanitization keeps the length of the name and
  every character that is legal at its position, and has an underscore for every other
  character; a legal identifier is left as it is.\<close>

lemma sanitize_loop_terminated:
  "CHR 0x00 \<notin> set cs \<Longrightarrow>
   sanitize_loop (cs @ [CHR 0x00]) =
     Some (map (\<lambda>c. if isalnum c \<or> c = CHR ''_'' then c else CHR ''_'') cs)"
  by (induction cs) auto

lemma enumerate_Suc_legal:
  "map (\<lambda>(i, c). if legal_at i c then c else CHR ''_'') (enumerate (Suc n) cs) =
   map (\<lambda>c. if isalnum c \<or> c = CHR ''_'' then c else CHR ''_'') cs"
  by (induction cs arbitrary: n) (simp_all add: legal_at_def)

lemma sanitize_nonempty:
  assumes "name \<noteq> []" and "CHR 0x00 \<notin> set name"
  shows "sanitize name = Some (sanitized name)"
proof -
  obtain c cs where name: "name = c # cs" using assms(1) by (cases name) auto
  define c' where "c' = (if \<not> isalpha c \<and> c \<noteq> CHR ''_'' then CHR ''_'' else c)"
  have c': "c' \<noteq> CHR 0x00" "isalnum c' \<or> c' = CHR ''_''"
    using assms(2) name by (auto simp add: c'_def isalnum_def)
  have "sanitize name = sanitize_loop (c' # cs @ [CHR 0x00])"
    by (simp add: sanitize_def name c'_def)
  also have "\<dots> = Some (c' # map (\<lambda>c. if isalnum c \<or> c = CHR ''_'' then c else CHR ''_'') cs)"
    using c' assms(2) name by (auto simp add: sanitize_loop_terminated)
  also have "c' # map (\<lambda>c. if isalnum c \<or> c = CHR ''_'' then c else CHR ''_'') cs = sanitized name"
  proof -
    have "c' = (if legal_at 0 c then c else CHR ''_'')"
      by (auto simp add: c'_def legal_at_def)
    moreover have "sanitized name = (if legal_at 0 c then c else CHR ''_'') #
        map (\<lambda>(i, c). if legal_at i c then c else CHR ''_'') (enumerate (Suc 0) cs)"
      by (simp add: sanitized_def name)
    ultimately show ?thesis by (simp only: enumerate_Suc_legal)
  qed
  finally show ?thesis .
qed

lemma length_sanitized: "length (sanitized name) = length name"
  by (simp add: sanitized_def)

lemma sanitized_legal:
  assumes "\<forall>i < length name. legal_at i (name ! i)"
  shows "sanitized name = name"
proof (rule nth_equalityI)
  show "length (sanitized name) = length name" by (rule length_sanitized)
next
  fix i assume "i < length (sanitized name)"
  then have i: "i < length name" by (simp add: length_sanitized)
  then show "sanitized name ! i = name ! i"
    using assms by (simp add: sanitized_def nth_enumerate_eq)
qed

lemma legal_not_NUL: "legal_at i c \<Longrightarrow> c \<noteq> CHR 0x00"
  by (auto simp add: legal_at_def isalnum_def isalpha_def isdigit_def split: if_splits)

lemma sanitize_identifier:
  assumes "name \<noteq> []" and "\<forall>i < length name. legal_at i (name ! i)"
  shows "sanitize name = Some name"
proof -
  have "CHR 0x00 \<notin> set name"
    using assms(2) legal_not_NUL by (auto simp add: in_set_conv_nth)
  then show ?thesis using assms by (simp add: sanitize_nonempty sanitized_legal)
qed

text \<open>
  Claim C8. The claim holds for every name that is not empty (\<open>sanitize_nonempty\<close>,
  \<open>length_sanitized\<close>, \<open>sanitize_identifier\<close>). On the empty name the program writes an
  underscore over the terminator of the string and its loop reads on behind the buffer:
  the result is not the empty name. The empty name comes from the command line
  \<^verbatim>\<open>bin2c in.bin -l ""\<close>, and from the default label for an input file such as \<^verbatim>\<open>.x\<close>.
\<close>

theorem sanitize_empty_name:
  "sanitize [] = None \<and>
   parse_args [''bin2c'', ''in.bin'', ''-l'', []] =
     Inr (opts_init\<lparr>f_inputname := Some ''in.bin'', symbolname := Some []\<rparr>) \<and>
   fst (main env0 [''bin2c'', ''in.bin'', ''-l'', []]) = Undefined \<and>
   make_symbolname ''.x'' None = None"
  by code_simp

lemma main_default_outputname:
  assumes "parse_args argv = Inr st" and "f_inputname st = Some inp" and "f_outputname st = None"
    and "fst (main e argv) = Exit_0"
  shows "\<exists>text. snd (main e argv) = (files e)(default_outputname inp \<mapsto> text)"
  using assms by (auto simp add: main_def Let_def split: option.splits if_splits)

lemma skip_dirs_plain: "strpbrk name dir_seps = None \<Longrightarrow> skip_dirs name = name"
  by (simp add: skip_dirs.simps [of name])

text \<open>
  Claim C9, as amended. When the input file name has no directory separator, the default
  output file name is the input file name with its extension replaced by \<^verbatim>\<open>.h\<close> (the name
  up to its last \<^verbatim>\<open>'.'\<close>, then \<^verbatim>\<open>.h\<close>), and with \<^verbatim>\<open>.h\<close> appended when it has no extension.
  When the input file name has a directory separator, \<^verbatim>\<open>.h\<close> is appended to the whole
  name, whether it has an extension or not. A run that succeeds without an output file
  name on the command line writes the file of that name, and no other.
\<close>

theorem default_outputname_cases:
  "(strpbrk name dir_seps = None \<longrightarrow> default_outputname name = outputname_claimed name) \<and>
   (strpbrk name dir_seps \<noteq> None \<longrightarrow> default_outputname name = name @ ''.h'') \<and>
   (strrchr name CHR ''.'' = None \<longrightarrow> default_outputname name = name @ ''.h'') \<and>
   (\<forall>i. strrchr name CHR ''.'' = Some i \<and> strpbrk name dir_seps = None \<longrightarrow>
        default_outputname name = take i name @ ''.h'') \<and>
   (parse_args argv = Inr st \<and> f_inputname st = Some inp \<and> f_outputname st = None \<and>
      fst (main e argv) = Exit_0 \<longrightarrow>
      (\<exists>text. snd (main e argv) = (files e)(default_outputname inp \<mapsto> text)))"
proof -
  have "parse_args argv = Inr st \<and> f_inputname st = Some inp \<and> f_outputname st = None \<and>
      fst (main e argv) = Exit_0 \<longrightarrow>
      (\<exists>text. snd (main e argv) = (files e)(default_outputname inp \<mapsto> text))"
    using main_default_outputname [of argv st inp e] by blast
  moreover have
    "(strpbrk name dir_seps = None \<longrightarrow> default_outputname name = outputname_claimed name) \<and>
     (strpbrk name dir_seps \<noteq> None \<longrightarrow> default_outputname name = name @ ''.h'') \<and>
     (strrchr name CHR ''.'' = None \<longrightarrow> default_outputname name = name @ ''.h'') \<and>
     (\<forall>i. strrchr name CHR ''.'' = Some i \<and> strpbrk name dir_seps = None \<longrightarrow>
          default_outputname name = take i name @ ''.h'')"
    by (auto simp add: default_outputname_def outputname_claimed_def skip_dirs_plain
        split: option.splits)
  ultimately show ?thesis by blast
qed

theorem default_outputname_cases_witness:
  "default_outputname ''file.bin'' = ''file.h'' \<and> default_outputname ''file'' = ''file.h'' \<and>
   default_outputname ''dir/file'' = ''dir/file.h'' \<and>
   snd (main env0 [''bin2c'', ''in.bin'']) ''in.h'' \<noteq> None"
proof -
  have 1: "strpbrk ''file.bin'' dir_seps = None" "strrchr ''file.bin'' CHR ''.'' = Some 4"
    "strrchr ''file'' CHR ''.'' = None" "strpbrk ''dir/file'' dir_seps \<noteq> None"
    by code_simp+
  have 2: "parse_args [''bin2c'', ''in.bin''] = Inr (opts_init\<lparr>f_inputname := Some ''in.bin''\<rparr>)"
    using parse_in_bin by (simp add: parse_args_def del: parse_loop.simps)
  have 3: "f_inputname (opts_init\<lparr>f_inputname := Some ''in.bin''\<rparr>) = Some ''in.bin''"
    "f_outputname (opts_init\<lparr>f_inputname := Some ''in.bin''\<rparr>) = None"
    by (simp_all add: opts_init_def)
  have 4: "fst (main env0 [''bin2c'', ''in.bin'']) = Exit_0"
    by code_simp
  have 5: "default_outputname ''in.bin'' = ''in.h''"
    by code_simp
  have "default_outputname ''file.bin'' = take 4 ''file.bin'' @ ''.h''"
    using default_outputname_cases [of "''file.bin''"] 1 by blast
  moreover have "default_outputname ''file'' = ''file'' @ ''.h''"
    using default_outputname_cases [of "''file''"] 1 by blast
  moreover have "default_outputname ''dir/file'' = ''dir/file'' @ ''.h''"
    using default_outputname_cases [of "''dir/file''"] 1 by blast
  moreover have "\<exists>text. snd (main env0 [''bin2c'', ''in.bin'']) =
      (files env0)(default_outputname ''in.bin'' \<mapsto> text)"
    using default_outputname_cases [of _ "[''bin2c'', ''in.bin'']"
        "opts_init\<lparr>f_inputname := Some ''in.bin''\<rparr>" "''in.bin''" env0] 2 3 4
    by blast
  ultimately show ?thesis by (auto simp add: 5)
qed

text \<open>
  Claim C9 as stated fails: for the input file \<^verbatim>\<open>dir/file.bin\<close> the default output file
  is \<^verbatim>\<open>dir/file.bin.h\<close>, not \<^verbatim>\<open>dir/file.h\<close>.
\<close>

theorem default_outputname_keeps_extension:
  "default_outputname ''dir/file.bin'' = ''dir/file.bin.h'' \<and>
   outputname_claimed ''dir/file.bin'' = ''dir/file.h'' \<and>
   default_outputname ''dir/file.bin'' \<noteq> outputname_claimed ''dir/file.bin''"
  by code_simp

end
